theory Spec2Isabelle
  imports Main
begin

section \<open>Values shared by both services\<close>

text \<open>
  Keys are JavaScript strings. Clock readings (\<^verbatim>\<open>Date.now()\<close>, the scheduler's time) and
  durations are integral milliseconds, modelled as \<open>int\<close>: the arithmetic of the source
  (\<^verbatim>\<open>timestamp + maxLifeTime < Date.now()\<close>) is exact on such values.

  A value that travels on the error channel is one of: a thrown string
  (\<^verbatim>\<open>throwError(() => '...')\<close>), an \<^verbatim>\<open>Error\<close> object with its message
  (\<^verbatim>\<open>throw new Error(...)\<close>), or whatever a caller-supplied observable failed with.
\<close>

type_synonym key = string

datatype 'e thrown = Str string | ErrorObj string | Raised 'e

text \<open>The three notifications an RxJS observer can receive.\<close>

datatype ('v, 'e) notification = Next 'v | Error "'e thrown" | Complete

text \<open>
  \<^verbatim>\<open>Subject\<close> of RxJS 7, as far as the services use it: the list of observers,
  \<^verbatim>\<open>isStopped\<close>, and \<^verbatim>\<open>thrownError\<close> (with \<^verbatim>\<open>hasError\<close> read as
  "\<open>thrownError\<close> is set"). Observers are named by numbers; each operation returns the new
  subject and the notifications it hands out, in order.
\<close>

record 'e subject =
  observers :: "nat list"
  isStopped :: bool
  thrownError :: "'e thrown option"

definition new_Subject :: "'e subject" where
  "new_Subject = \<lparr>observers = [], isStopped = False, thrownError = None\<rparr>"

definition subject_next :: "'v \<Rightarrow> 'e subject \<Rightarrow> 'e subject \<times> (nat \<times> ('v, 'e) notification) list" where
  "subject_next v sub =
     (if isStopped sub then (sub, [])
      else (sub, map (\<lambda>ob. (ob, Next v)) (observers sub)))"

definition subject_error :: "'e thrown \<Rightarrow> 'e subject \<Rightarrow> 'e subject \<times> (nat \<times> ('v, 'e) notification) list" where
  "subject_error err sub =
     (if isStopped sub then (sub, [])
      else (sub\<lparr>observers := [], isStopped := True, thrownError := Some err\<rparr>,
            map (\<lambda>ob. (ob, Error err)) (observers sub)))"

definition subject_complete :: "'e subject \<Rightarrow> 'e subject \<times> (nat \<times> ('v, 'e) notification) list" where
  "subject_complete sub =
     (if isStopped sub then (sub, [])
      else (sub\<lparr>observers := [], isStopped := True\<rparr>,
            map (\<lambda>ob. (ob, Complete)) (observers sub)))"

definition subject_subscribe :: "nat \<Rightarrow> 'e subject \<Rightarrow> 'e subject \<times> (nat \<times> ('v, 'e) notification) list" where
  "subject_subscribe ob sub =
     (case thrownError sub of
        Some err \<Rightarrow> (sub, [(ob, Error err)])
      | None \<Rightarrow>
          if isStopped sub then (sub, [(ob, Complete)])
          else (sub\<lparr>observers := observers sub @ [ob]\<rparr>, []))"

section \<open>CacheService\<close>

text \<open>
  \<^verbatim>\<open>interface CacheContent { timestamp: number; value: any }\<close>. The field
  \<^verbatim>\<open>value\<close> is written \<open>value_c\<close>.
\<close>

record 'v CacheContent =
  timestamp :: int
  value_c :: 'v

definition DEFAULT_LIFE_TIME :: int where
  "DEFAULT_LIFE_TIME = 300000"

text \<open>A parameter with the default \<^verbatim>\<open>= DEFAULT_LIFE_TIME\<close>: \<open>None\<close> is the omitted argument.\<close>

definition lifeTime :: "int option \<Rightarrow> int" where
  "lifeTime maxLifeTime = (case maxLifeTime of None \<Rightarrow> DEFAULT_LIFE_TIME | Some t \<Rightarrow> t)"

text \<open>
  The message of the observable \<^verbatim>\<open>get\<close> returns when it has nothing cached, nothing in
  flight and no fallback; the specification calls it MissingFallbackError.
\<close>

definition MissingFallbackError :: "'e thrown" where
  "MissingFallbackError = Str ''You must offer the fallback observable, if the key is not in cache.''"

text \<open>
  The four observables \<^verbatim>\<open>get\<close> can return, unsubscribed:
  \<^verbatim>\<open>of(cached.value)\<close>, the in-flight \<^verbatim>\<open>Subject\<close> itself (a reference into the
  store of subjects), \<^verbatim>\<open>defer(() => {...})\<close> closing over the key and the fallback, and
  \<^verbatim>\<open>throwError(() => '...')\<close>. A fallback \<^verbatim>\<open>() => Observable<T>\<close> is named by a
  number; the observable it returns is an asynchronous source whose notifications
  arrive later as the events \<open>source_next\<close>, \<open>source_error\<close> and \<open>source_complete\<close>.
\<close>

datatype ('v, 'e) observable =
    Of 'v
  | InFlight nat
  | Defer key nat
  | ThrowError "'e thrown"

text \<open>
  One running subscription to \<^verbatim>\<open>fallbackObservable.pipe(tap(...), catchError(...))\<close>:
  the key and the \<^verbatim>\<open>inFlight\<close> subject its closures captured, and the observer that
  subscribed to the \<^verbatim>\<open>defer\<close>.
\<close>

record fetch =
  f_key :: key
  f_inFlight :: nat
  f_subscriber :: nat

text \<open>
  The service: its two private maps, the store of the \<^verbatim>\<open>Subject\<close> objects it created
  (\<open>inFlightObservables\<close> and the closures of running fetches refer to them by
  reference), the running fetches, and two logs the claims are about: every invocation
  of a fallback (\<open>invoked\<close>) and every notification delivered to an observer
  (\<open>delivered\<close>), both in order.
\<close>

record ('v, 'e) CacheService =
  cache :: "key \<rightharpoonup> 'v CacheContent"
  inFlightObservables :: "key \<rightharpoonup> nat"
  subjects :: "nat \<rightharpoonup> 'e subject"
  next_subject :: nat
  fetches :: "nat \<rightharpoonup> fetch"
  next_fetch :: nat
  invoked :: "(key \<times> nat) list"
  delivered :: "(nat \<times> ('v, 'e) notification) list"

definition new_CacheService :: "('v, 'e) CacheService" where
  "new_CacheService =
     \<lparr>cache = Map.empty, inFlightObservables = Map.empty, subjects = Map.empty,
      next_subject = 0, fetches = Map.empty, next_fetch = 0, invoked = [], delivered = []\<rparr>"

text \<open>\<^verbatim>\<open>validCachedValue(key, maxLifeTime)\<close>, with \<^verbatim>\<open>Date.now()\<close> as \<open>now\<close>.\<close>

definition validCachedValue ::
  "key \<Rightarrow> int \<Rightarrow> int \<Rightarrow> ('v, 'e) CacheService \<Rightarrow> 'v CacheContent option \<times> ('v, 'e) CacheService" where
  "validCachedValue k maxLifeTime now s =
     (case cache s k of
        Some cached \<Rightarrow>
          if timestamp cached + maxLifeTime < now
          then (None, s\<lparr>cache := (cache s)(k := None)\<rparr>)
          else (Some cached, s)
      | None \<Rightarrow> (None, s))"

text \<open>\<^verbatim>\<open>get(key, fallback?, maxLifeTime = DEFAULT_LIFE_TIME)\<close>: the observable and the state.\<close>

definition get ::
  "key \<Rightarrow> nat option \<Rightarrow> int option \<Rightarrow> int \<Rightarrow> ('v, 'e) CacheService
     \<Rightarrow> ('v, 'e) observable \<times> ('v, 'e) CacheService" where
  "get k fallback maxLifeTime now s =
     (case validCachedValue k (lifeTime maxLifeTime) now s of
        (Some cached, s') \<Rightarrow> (Of (value_c cached), s')
      | (None, s') \<Rightarrow>
          (case inFlightObservables s' k of
             Some r \<Rightarrow> (InFlight r, s')
           | None \<Rightarrow>
               (case fallback of
                  Some f \<Rightarrow> (Defer k f, s')
                | None \<Rightarrow> (ThrowError MissingFallbackError, s'))))"

text \<open>\<^verbatim>\<open>set(key, value)\<close>, \<^verbatim>\<open>has(key)\<close>, \<^verbatim>\<open>collect(key, maxLifeTime = DEFAULT_LIFE_TIME)\<close>.\<close>

definition set_c :: "key \<Rightarrow> 'v \<Rightarrow> int \<Rightarrow> ('v, 'e) CacheService \<Rightarrow> ('v, 'e) CacheService" where
  "set_c k v now s = s\<lparr>cache := (cache s)(k \<mapsto> \<lparr>timestamp = now, value_c = v\<rparr>)\<rparr>"

definition has :: "key \<Rightarrow> ('v, 'e) CacheService \<Rightarrow> bool" where
  "has k s = (cache s k \<noteq> None)"

definition collect :: "key \<Rightarrow> int option \<Rightarrow> int \<Rightarrow> ('v, 'e) CacheService \<Rightarrow> ('v, 'e) CacheService" where
  "collect k maxLifeTime now s =
     (case cache s k of
        Some cached \<Rightarrow>
          if timestamp cached + lifeTime maxLifeTime < now
          then s\<lparr>cache := (cache s)(k := None)\<rparr>
          else s
      | None \<Rightarrow> s)"

text \<open>The subject operations, applied to a subject of the store.\<close>

definition on_subject ::
  "nat \<Rightarrow> ('e subject \<Rightarrow> 'e subject \<times> (nat \<times> ('v, 'e) notification) list)
     \<Rightarrow> ('v, 'e) CacheService \<Rightarrow> ('v, 'e) CacheService" where
  "on_subject r f s =
     (case subjects s r of
        None \<Rightarrow> s
      | Some sub \<Rightarrow>
          (case f sub of
             (sub', ns) \<Rightarrow> s\<lparr>subjects := (subjects s)(r \<mapsto> sub'), delivered := delivered s @ ns\<rparr>))"

text \<open>
  Subscribing observer \<open>ob\<close> to an observable that \<^verbatim>\<open>get\<close> returned.
  \<^item> \<^verbatim>\<open>of(v)\<close> emits \<open>v\<close> and completes.
  \<^item> \<^verbatim>\<open>throwError\<close> delivers its error.
  \<^item> The in-flight subject registers the observer, or answers with its final state.
  \<^item> \<^verbatim>\<open>defer\<close> runs its factory now: \<^verbatim>\<open>fallback()\<close> is invoked, a new
    \<^verbatim>\<open>Subject\<close> is created and stored under the key in \<open>inFlightObservables\<close>
    (replacing whatever was there), and the piped fallback observable is subscribed.
\<close>

fun subscribe :: "('v, 'e) observable \<Rightarrow> nat \<Rightarrow> ('v, 'e) CacheService \<Rightarrow> ('v, 'e) CacheService" where
  "subscribe (Of v) ob s = s\<lparr>delivered := delivered s @ [(ob, Next v), (ob, Complete)]\<rparr>"
| "subscribe (ThrowError err) ob s = s\<lparr>delivered := delivered s @ [(ob, Error err)]\<rparr>"
| "subscribe (InFlight r) ob s = on_subject r (subject_subscribe ob) s"
| "subscribe (Defer k f) ob s =
     s\<lparr>invoked := invoked s @ [(k, f)],
       subjects := (subjects s)(next_subject s \<mapsto> new_Subject),
       next_subject := Suc (next_subject s),
       inFlightObservables := (inFlightObservables s)(k \<mapsto> next_subject s),
       fetches := (fetches s)(next_fetch s \<mapsto>
                    \<lparr>f_key = k, f_inFlight = next_subject s, f_subscriber = ob\<rparr>),
       next_fetch := Suc (next_fetch s)\<rparr>"

text \<open>
  The fallback observable of fetch \<open>i\<close> emits \<open>v\<close>: the \<^verbatim>\<open>tap\<close> callback runs
  (\<^verbatim>\<open>this.set\<close>, \<^verbatim>\<open>inFlight.next\<close>, \<^verbatim>\<open>inFlight.complete\<close>,
  \<^verbatim>\<open>inFlightObservables.delete(key)\<close>), then the value reaches the subscriber of the
  \<^verbatim>\<open>defer\<close>.
\<close>

definition source_next :: "nat \<Rightarrow> 'v \<Rightarrow> int \<Rightarrow> ('v, 'e) CacheService \<Rightarrow> ('v, 'e) CacheService" where
  "source_next i v now s =
     (case fetches s i of
        None \<Rightarrow> s
      | Some f \<Rightarrow>
          let s1 = set_c (f_key f) v now s;
              s2 = on_subject (f_inFlight f) (subject_next v) s1;
              s3 = on_subject (f_inFlight f) subject_complete s2;
              s4 = s3\<lparr>inFlightObservables := (inFlightObservables s3)(f_key f := None)\<rparr>
          in s4\<lparr>delivered := delivered s4 @ [(f_subscriber f, Next v)]\<rparr>)"

text \<open>
  The fallback observable of fetch \<open>i\<close> fails with \<open>err\<close>: \<^verbatim>\<open>tap\<close> lets it pass, the
  \<^verbatim>\<open>catchError\<close> callback runs (\<^verbatim>\<open>inFlight.error\<close>, \<^verbatim>\<open>inFlight.complete\<close>,
  \<^verbatim>\<open>inFlightObservables.delete(key)\<close>) and rethrows, so the subscriber of the
  \<^verbatim>\<open>defer\<close> receives the error and the subscription ends.
\<close>

definition source_error :: "nat \<Rightarrow> 'e thrown \<Rightarrow> ('v, 'e) CacheService \<Rightarrow> ('v, 'e) CacheService" where
  "source_error i err s =
     (case fetches s i of
        None \<Rightarrow> s
      | Some f \<Rightarrow>
          let s1 = on_subject (f_inFlight f) (subject_error err) s;
              s2 = on_subject (f_inFlight f) subject_complete s1;
              s3 = s2\<lparr>inFlightObservables := (inFlightObservables s2)(f_key f := None)\<rparr>
          in s3\<lparr>delivered := delivered s3 @ [(f_subscriber f, Error err)],
                 fetches := (fetches s3)(i := None)\<rparr>)"

text \<open>The fallback observable of fetch \<open>i\<close> completes: the completion passes through.\<close>

definition source_complete :: "nat \<Rightarrow> ('v, 'e) CacheService \<Rightarrow> ('v, 'e) CacheService" where
  "source_complete i s =
     (case fetches s i of
        None \<Rightarrow> s
      | Some f \<Rightarrow>
          s\<lparr>delivered := delivered s @ [(f_subscriber f, Complete)],
            fetches := (fetches s)(i := None)\<rparr>)"

text \<open>
  \<^verbatim>\<open>get(...).subscribe(ob)\<close> as one synchronous expression: the usual way a caller
  uses \<^verbatim>\<open>get\<close>.
\<close>

definition get_subscribe ::
  "key \<Rightarrow> nat option \<Rightarrow> int option \<Rightarrow> int \<Rightarrow> nat \<Rightarrow> ('v, 'e) CacheService \<Rightarrow> ('v, 'e) CacheService" where
  "get_subscribe k fallback maxLifeTime now ob s =
     (case get k fallback maxLifeTime now s of (obs, s') \<Rightarrow> subscribe obs ob s')"

text \<open>
  Everything that can happen to a cache service: the public methods, a subscription to
  an observable \<^verbatim>\<open>get\<close> returned, and the notifications of a running fetch.
  \<open>run_op now op\<close> is the state after \<open>op\<close> happens at clock reading \<open>now\<close>.
\<close>

datatype ('v, 'e) cache_op =
    Get key "nat option" "int option"
  | Set key 'v
  | Has key
  | Collect key "int option"
  | Subscribe "('v, 'e) observable" nat
  | SourceNext nat 'v
  | SourceError nat "'e thrown"
  | SourceComplete nat

fun run_op :: "int \<Rightarrow> ('v, 'e) cache_op \<Rightarrow> ('v, 'e) CacheService \<Rightarrow> ('v, 'e) CacheService" where
  "run_op now (Get k fallback maxLifeTime) s = snd (get k fallback maxLifeTime now s)"
| "run_op now (Set k v) s = set_c k v now s"
| "run_op now (Has k) s = s"
| "run_op now (Collect k maxLifeTime) s = collect k maxLifeTime now s"
| "run_op now (Subscribe obs ob) s = subscribe obs ob s"
| "run_op now (SourceNext i v) s = source_next i v now s"
| "run_op now (SourceError i err) s = source_error i err s"
| "run_op now (SourceComplete i) s = source_complete i s"

section \<open>StreamService\<close>

text \<open>
  One call of \<^verbatim>\<open>registerStream$\<close> creates \<^verbatim>\<open>clear$\<close>, \<^verbatim>\<open>update$\<close> and
  \<^verbatim>\<open>stream$ = update$.pipe(throttleTime(t), mergeMap(p => queryOnce(p).pipe(catchError(() => EMPTY))),
  takeUntil(clear$), shareReplay(1))\<close>.
  The record below is the state of these objects together:
  \<^item> \<open>queryOnce\<close>: the name of the query function (a number), \<open>updateThrottleTime\<close>: the
    window;
  \<^item> \<open>connected\<close>: \<^verbatim>\<open>shareReplay\<close> has subscribed to its source. It does so at the first
    subscription to \<^verbatim>\<open>stream$\<close> and, having \<^verbatim>\<open>refCount: false\<close>, never lets go. Only
    then do \<^verbatim>\<open>update$\<close> and \<^verbatim>\<open>clear$\<close> have an observer;
  \<^item> \<open>throttled\<close>: the due time of the timer \<^verbatim>\<open>throttleTime\<close> started at its last
    emission, while that timer has not fired (\<^verbatim>\<open>throttled && !throttled.closed\<close>);
  \<^item> \<open>inner\<close>: the inner subscriptions of \<^verbatim>\<open>mergeMap\<close> that are still running, each
    named by a number;
  \<^item> \<open>finished\<close>: \<^verbatim>\<open>takeUntil\<close> has seen \<^verbatim>\<open>clear$\<close> emit and completed the stream;
  \<^item> \<open>replay\<close>: the buffer of the \<^verbatim>\<open>ReplaySubject(1)\<close> behind \<^verbatim>\<open>shareReplay(1)\<close>;
  \<^item> \<open>listeners\<close>: the observers subscribed to \<^verbatim>\<open>stream$\<close>.
  A \<^verbatim>\<open>StreamHandler {stream$, update, clear}\<close> holds three views of one such object, so a
  handler is a reference to it.
\<close>

record 'v pipeline =
  queryOnce :: nat
  updateThrottleTime :: int
  connected :: bool
  throttled :: "int option"
  inner :: "nat list"
  finished :: bool
  replay :: "'v option"
  listeners :: "nat list"

text \<open>
  The service: the private map \<open>streams\<close>, the store of pipeline objects, a counter
  naming inner subscriptions, and two logs the claims are about: every invocation of
  a query function with its payload (\<open>queried\<close>) and every notification delivered to a
  subscriber of a stream (\<open>notified\<close>), both in order.
\<close>

record ('p, 'v, 'e) StreamService =
  streams :: "key \<rightharpoonup> nat"
  pipelines :: "nat \<rightharpoonup> 'v pipeline"
  next_pipeline :: nat
  next_query :: nat
  queried :: "(nat \<times> 'p) list"
  notified :: "(nat \<times> ('v, 'e) notification) list"

definition new_StreamService :: "('p, 'v, 'e) StreamService" where
  "new_StreamService =
     \<lparr>streams = Map.empty, pipelines = Map.empty, next_pipeline = 0, next_query = 0,
      queried = [], notified = []\<rparr>"

text \<open>
  \<^verbatim>\<open>new Error(`register a duplcated key ${key}`)\<close>; the specification calls it
  DuplicateKeyError.
\<close>

definition DuplicateKeyError :: "key \<Rightarrow> 'e thrown" where
  "DuplicateKeyError k = ErrorObj (''register a duplcated key '' @ k)"

text \<open>The default \<^verbatim>\<open>updateThrottleTime: number = 1000\<close>.\<close>

definition throttleWindow :: "int option \<Rightarrow> int" where
  "throttleWindow t = (case t of None \<Rightarrow> 1000 | Some w \<Rightarrow> w)"

text \<open>
  \<^verbatim>\<open>registerStream$(key, queryOnce, updateThrottleTime = 1000)\<close>: the exception or the
  returned \<^verbatim>\<open>stream$\<close>, and the state. The \<^verbatim>\<open>throw\<close> comes before any assignment.
\<close>

definition registerStream_S ::
  "key \<Rightarrow> nat \<Rightarrow> int option \<Rightarrow> ('p, 'v, 'e) StreamService
     \<Rightarrow> ('e thrown + nat) \<times> ('p, 'v, 'e) StreamService" where
  "registerStream_S k q t s =
     (if streams s k \<noteq> None then (Inl (DuplicateKeyError k), s)
      else (Inr (next_pipeline s),
            s\<lparr>pipelines := (pipelines s)(next_pipeline s \<mapsto>
                  \<lparr>queryOnce = q, updateThrottleTime = throttleWindow t, connected = False,
                   throttled = None, inner = [], finished = False, replay = None,
                   listeners = []\<rparr>),
              next_pipeline := Suc (next_pipeline s),
              streams := (streams s)(k \<mapsto> next_pipeline s)\<rparr>))"

definition getHandler :: "key \<Rightarrow> ('p, 'v, 'e) StreamService \<Rightarrow> nat option" where
  "getHandler k s = streams s k"

definition getStream_S :: "key \<Rightarrow> ('p, 'v, 'e) StreamService \<Rightarrow> nat option" where
  "getStream_S k s = streams s k"

text \<open>
  The event loop runs the timers that are due: a \<^verbatim>\<open>throttleTime\<close> timer whose due time
  has come fires and ends the throttling. Code that runs at clock reading \<open>now\<close> after
  the loop has been idle sees the state \<open>run_timers now s\<close>.
\<close>

definition timer_fired :: "int \<Rightarrow> 'v pipeline \<Rightarrow> 'v pipeline" where
  "timer_fired now p =
     (case throttled p of
        Some due \<Rightarrow> if due \<le> now then p\<lparr>throttled := None\<rparr> else p
      | None \<Rightarrow> p)"

definition run_timers :: "int \<Rightarrow> ('p, 'v, 'e) StreamService \<Rightarrow> ('p, 'v, 'e) StreamService" where
  "run_timers now s = s\<lparr>pipelines := (\<lambda>r. map_option (timer_fired now) (pipelines s r))\<rparr>"

text \<open>
  What the call \<^verbatim>\<open>queryOnce(payload)\<close> does, which the caller's function decides: it
  returns an observable (whose notifications arrive later as \<open>query_next\<close>,
  \<open>query_error\<close> and \<open>query_complete\<close>), or it throws.
\<close>

datatype 'e call = Returns | Throws "'e thrown"

text \<open>
  \<^verbatim>\<open>update(payload)\<close>, that is \<^verbatim>\<open>update$.next(payload)\<close>, at clock reading \<open>now\<close>;
  \<open>c\<close> is what \<^verbatim>\<open>queryOnce(payload)\<close> does if this request reaches it.
  \<^item> A subject without observers discards the value: nothing happens before the pipeline
    is connected, or after it has finished.
  \<^item> \<^verbatim>\<open>throttleTime\<close> (leading, not trailing) discards the value while its timer runs.
  \<^item> Otherwise the value passes and \<^verbatim>\<open>mergeMap\<close> calls \<^verbatim>\<open>queryOnce(payload)\<close>.
  \<^item> If the call returns, \<^verbatim>\<open>mergeMap\<close> subscribes to the result, and \<^verbatim>\<open>throttleTime\<close>
    starts \<^verbatim>\<open>timer(updateThrottleTime)\<close> (a negative duration counts as 0).
  \<^item> If the call throws, the exception is raised inside the projection of \<^verbatim>\<open>mergeMap\<close>,
    outside \<^verbatim>\<open>catchError\<close>, which is piped onto the returned observable only. It
    becomes an error of the stream: every listener receives it, the whole chain is
    unsubscribed from \<^verbatim>\<open>update$\<close> and \<^verbatim>\<open>clear$\<close>, and \<^verbatim>\<open>shareReplay\<close> (which resets on
    error) forgets its replay subject and its connection. \<^verbatim>\<open>stream$\<close> is then as it
    was before its first subscription; the handler stays in the registry.
\<close>

definition update :: "nat \<Rightarrow> 'p \<Rightarrow> 'e call \<Rightarrow> int \<Rightarrow> ('p, 'v, 'e) StreamService \<Rightarrow> ('p, 'v, 'e) StreamService" where
  "update r payload c now s =
     (case pipelines s r of
        None \<Rightarrow> s
      | Some p \<Rightarrow>
          if \<not> connected p \<or> finished p then s
          else if throttled p \<noteq> None then s
          else (case c of
                  Returns \<Rightarrow>
                    s\<lparr>pipelines := (pipelines s)(r \<mapsto>
                         p\<lparr>throttled := Some (now + max 0 (updateThrottleTime p)),
                           inner := inner p @ [next_query s]\<rparr>),
                      next_query := Suc (next_query s),
                      queried := queried s @ [(queryOnce p, payload)]\<rparr>
                | Throws err \<Rightarrow>
                    s\<lparr>pipelines := (pipelines s)(r \<mapsto>
                         p\<lparr>connected := False, throttled := None, inner := [],
                           replay := None, listeners := []\<rparr>),
                      queried := queried s @ [(queryOnce p, payload)],
                      notified := notified s @ map (\<lambda>ob. (ob, Error err)) (listeners p)\<rparr>))"

text \<open>
  \<^verbatim>\<open>clear()\<close> of a handler, that is \<^verbatim>\<open>clear$.next()\<close>: if \<^verbatim>\<open>takeUntil\<close> is listening, the
  stream completes (every listener is told so) and everything upstream is
  unsubscribed.
\<close>

definition clear_handler :: "nat \<Rightarrow> ('p, 'v, 'e) StreamService \<Rightarrow> ('p, 'v, 'e) StreamService" where
  "clear_handler r s =
     (case pipelines s r of
        None \<Rightarrow> s
      | Some p \<Rightarrow>
          if \<not> connected p \<or> finished p then s
          else s\<lparr>pipelines := (pipelines s)(r \<mapsto>
                     p\<lparr>finished := True, throttled := None, inner := [], listeners := []\<rparr>),
                 notified := notified s @ map (\<lambda>ob. (ob, Complete)) (listeners p)\<rparr>)"

text \<open>
  \<^verbatim>\<open>clear(key)\<close> and \<^verbatim>\<open>applyUpdate(key, payload?)\<close>, the latter with what
  \<^verbatim>\<open>queryOnce(payload)\<close> does if it is called.
\<close>

definition clear :: "key \<Rightarrow> ('p, 'v, 'e) StreamService \<Rightarrow> ('p, 'v, 'e) StreamService" where
  "clear k s =
     (case streams s k of
        Some r \<Rightarrow> (clear_handler r s)\<lparr>streams := (streams s)(k := None)\<rparr>
      | None \<Rightarrow> s)"

definition applyUpdate :: "key \<Rightarrow> 'p \<Rightarrow> 'e call \<Rightarrow> int \<Rightarrow> ('p, 'v, 'e) StreamService \<Rightarrow> ('p, 'v, 'e) StreamService" where
  "applyUpdate k payload c now s =
     (case streams s k of
        Some r \<Rightarrow> update r payload c now s
      | None \<Rightarrow> s)"

text \<open>
  \<^verbatim>\<open>applyUpdate$(key, payload, waitFor)\<close> returns, unsubscribed, either
  \<^verbatim>\<open>race(entry.stream$.pipe(skipUntil(timer(1)), take(1), map(() => true)), timer(waitFor).pipe(map(() => false)))\<close>
  or \<^verbatim>\<open>of(true)\<close>.
\<close>

datatype update_observable = Race nat int | Of_bool bool

definition applyUpdate_S ::
  "key \<Rightarrow> 'p \<Rightarrow> 'e call \<Rightarrow> int \<Rightarrow> int \<Rightarrow> ('p, 'v, 'e) StreamService
     \<Rightarrow> update_observable \<times> ('p, 'v, 'e) StreamService" where
  "applyUpdate_S k payload c waitFor now s =
     (case streams s k of
        Some r \<Rightarrow> (Race r waitFor, update r payload c now s)
      | None \<Rightarrow> (Of_bool True, s))"

text \<open>
  Observer \<open>ob\<close> subscribes to \<^verbatim>\<open>stream$\<close>. The replay subject hands it the buffered value,
  if any; a finished stream then completes it; otherwise it becomes a listener, and the
  first subscription connects the pipeline to \<^verbatim>\<open>update$\<close> and \<^verbatim>\<open>clear$\<close>.
\<close>

definition replayed :: "nat \<Rightarrow> 'v pipeline \<Rightarrow> (nat \<times> ('v, 'e) notification) list" where
  "replayed ob p = (case replay p of Some v \<Rightarrow> [(ob, Next v)] | None \<Rightarrow> [])"

definition subscribe_stream :: "nat \<Rightarrow> nat \<Rightarrow> ('p, 'v, 'e) StreamService \<Rightarrow> ('p, 'v, 'e) StreamService" where
  "subscribe_stream r ob s =
     (case pipelines s r of
        None \<Rightarrow> s
      | Some p \<Rightarrow>
          if finished p
          then s\<lparr>notified := notified s @ replayed ob p @ [(ob, Complete)]\<rparr>
          else s\<lparr>pipelines := (pipelines s)(r \<mapsto> p\<lparr>listeners := listeners p @ [ob], connected := True\<rparr>),
                 notified := notified s @ replayed ob p\<rparr>)"

text \<open>
  The notifications of the observable that invocation \<open>q\<close> of \<^verbatim>\<open>queryOnce\<close> returned, in
  pipeline \<open>r\<close> (a call that throws returns none, see \<open>update\<close>). A value goes through \<^verbatim>\<open>takeUntil\<close> into the replay subject, which
  stores it and hands it to every listener. A completion ends the inner subscription.
  An error is replaced by \<^verbatim>\<open>EMPTY\<close> (\<^verbatim>\<open>catchError(() => EMPTY)\<close>), which completes at
  once: the inner subscription ends as if the observable had completed.
\<close>

definition query_next :: "nat \<Rightarrow> nat \<Rightarrow> 'v \<Rightarrow> ('p, 'v, 'e) StreamService \<Rightarrow> ('p, 'v, 'e) StreamService" where
  "query_next r q v s =
     (case pipelines s r of
        None \<Rightarrow> s
      | Some p \<Rightarrow>
          if q \<in> set (inner p) \<and> \<not> finished p
          then s\<lparr>pipelines := (pipelines s)(r \<mapsto> p\<lparr>replay := Some v\<rparr>),
                 notified := notified s @ map (\<lambda>ob. (ob, Next v)) (listeners p)\<rparr>
          else s)"

definition query_complete :: "nat \<Rightarrow> nat \<Rightarrow> ('p, 'v, 'e) StreamService \<Rightarrow> ('p, 'v, 'e) StreamService" where
  "query_complete r q s =
     (case pipelines s r of
        None \<Rightarrow> s
      | Some p \<Rightarrow> s\<lparr>pipelines := (pipelines s)(r \<mapsto> p\<lparr>inner := removeAll q (inner p)\<rparr>)\<rparr>)"

definition query_error :: "nat \<Rightarrow> nat \<Rightarrow> 'e thrown \<Rightarrow> ('p, 'v, 'e) StreamService \<Rightarrow> ('p, 'v, 'e) StreamService" where
  "query_error r q err s = query_complete r q s"

section \<open>Scenarios\<close>

text \<open>
  Callers after the first one: each is \<^verbatim>\<open>get(k, fallback, maxLifeTime).subscribe(ob)\<close> with
  its own lifetime, clock reading and observer, one after the other.
\<close>

definition later_calls ::
  "key \<Rightarrow> nat \<Rightarrow> (int option \<times> int \<times> nat) list \<Rightarrow> ('v, 'e) CacheService \<Rightarrow> ('v, 'e) CacheService" where
  "later_calls k f cs s = fold (\<lambda>(m, now, ob). get_subscribe k (Some f) m now ob) cs s"

definition callers :: "(int option \<times> int \<times> nat) list \<Rightarrow> nat list" where
  "callers cs = map (\<lambda>(m, now, ob). ob) cs"

text \<open>A cache holding the value 7 under \<open>''a''\<close>, stored at time 100.\<close>

definition cached_at_100 :: "(nat, unit) CacheService" where
  "cached_at_100 = set_c ''a'' 7 100 new_CacheService"

text \<open>
  A fetch for \<open>''a''\<close> is started at time 0 on an empty cache (observer 1), and while it
  runs \<^verbatim>\<open>set('a', 7)\<close> is called at time 100.
\<close>

definition set_while_in_flight :: "(nat, unit) CacheService" where
  "set_while_in_flight = set_c ''a'' 7 100 (get_subscribe ''a'' (Some 0) None 0 1 new_CacheService)"

text \<open>
  Two callers call \<^verbatim>\<open>get('a', fallback)\<close> on an empty cache, and only then subscribe,
  in the same order:
  \<^verbatim>\<open>const o1 = cache.get('a', f); const o2 = cache.get('a', f); o1.subscribe(ob1); o2.subscribe(ob2)\<close>.
\<close>

definition two_gets_then_subscribe :: "(nat, unit) CacheService" where
  "two_gets_then_subscribe =
     (case get ''a'' (Some 0) None 0 new_CacheService of
        (o1, s1) \<Rightarrow>
          (case get ''a'' (Some 0) None 0 s1 of
             (o2, s2) \<Rightarrow> subscribe o2 2 (subscribe o1 1 s2)))"

text \<open>
  A list of \<^verbatim>\<open>applyUpdate(k, payload)\<close> calls, each with what its query call would do and
  its clock reading.
\<close>

definition applyUpdates ::
  "key \<Rightarrow> ('p \<times> 'e call \<times> int) list \<Rightarrow> ('p, 'v, 'e) StreamService \<Rightarrow> ('p, 'v, 'e) StreamService" where
  "applyUpdates k ups s = fold (\<lambda>(payload, c, now). applyUpdate k payload c now) ups s"

text \<open>
  Three \<^verbatim>\<open>applyUpdate(k, payload)\<close> calls at the clock readings 0, 200 and 1100, the event
  loop running the due timers before each; \<open>c0\<close>, \<open>c200\<close> and \<open>c1100\<close> are what the query
  call of each would do.
\<close>

definition three_updates ::
  "key \<Rightarrow> 'p \<Rightarrow> 'e call \<Rightarrow> 'p \<Rightarrow> 'e call \<Rightarrow> 'p \<Rightarrow> 'e call
     \<Rightarrow> ('p, 'v, 'e) StreamService \<Rightarrow> ('p, 'v, 'e) StreamService" where
  "three_updates k p0 c0 p200 c200 p1100 c1100 s =
     applyUpdate k p1100 c1100 1100 (run_timers 1100
       (applyUpdate k p200 c200 200 (run_timers 200
         (applyUpdate k p0 c0 0 (run_timers 0 s)))))"

text \<open>No throttle timer of the pipeline is still running once the timers due at \<open>now\<close> have fired.\<close>

definition idle :: "int \<Rightarrow> 'v pipeline \<Rightarrow> bool" where
  "idle now p = (case throttled p of None \<Rightarrow> True | Some due \<Rightarrow> due \<le> now)"

text \<open>
  A stream registered under \<open>''feed''\<close> with the default window, and the same stream with
  observer 1 subscribed; then with one refresh request (payload 5) made at time 0, whose
  query call returns (\<open>feed_querying\<close>) or throws (\<open>feed_thrown\<close>).
\<close>

definition feed_registered :: "(nat, nat, unit) StreamService" where
  "feed_registered = snd (registerStream_S ''feed'' 0 None new_StreamService)"

definition feed_live :: "(nat, nat, unit) StreamService" where
  "feed_live = subscribe_stream 0 1 feed_registered"

definition feed_querying :: "(nat, nat, unit) StreamService" where
  "feed_querying = applyUpdate ''feed'' 5 Returns 0 feed_live"

definition feed_thrown :: "(nat, nat, unit) StreamService" where
  "feed_thrown = applyUpdate ''feed'' 5 (Throws (ErrorObj ''boom'')) 0 feed_live"

section \<open>CacheService: lemmas\<close>

lemma get_fresh:
  "cache s k = Some c \<Longrightarrow> now \<le> timestamp c + lifeTime m \<Longrightarrow> get k fb m now s = (Of (value_c c), s)"
  by (simp add: get_def validCachedValue_def)

lemma get_expired:
  "cache s k = Some c \<Longrightarrow> timestamp c + lifeTime m < now \<Longrightarrow>
   get k fb m now s =
     (case inFlightObservables s k of
        Some r \<Rightarrow> InFlight r
      | None \<Rightarrow> (case fb of Some f \<Rightarrow> Defer k f | None \<Rightarrow> ThrowError MissingFallbackError),
      s\<lparr>cache := (cache s)(k := None)\<rparr>)"
  by (simp add: get_def validCachedValue_def split: option.splits)

lemma get_absent:
  "cache s k = None \<Longrightarrow>
   get k fb m now s =
     (case inFlightObservables s k of
        Some r \<Rightarrow> InFlight r
      | None \<Rightarrow> (case fb of Some f \<Rightarrow> Defer k f | None \<Rightarrow> ThrowError MissingFallbackError),
      s)"
  by (simp add: get_def validCachedValue_def split: option.splits)

lemma delete_absent: "cache s k = None \<Longrightarrow> s\<lparr>cache := (cache s)(k := None)\<rparr> = s"
  by (simp add: fun_upd_idem)

lemma on_subject_cache [simp]: "cache (on_subject r f s) = cache s"
  by (simp add: on_subject_def split: option.splits prod.splits)

lemma on_subject_invoked [simp]: "invoked (on_subject r f s) = invoked s"
  by (simp add: on_subject_def split: option.splits prod.splits)

lemma subscribe_cache [simp]: "cache (subscribe obs ob s) = cache s"
  by (cases obs) simp_all

text \<open>A caller that finds a fetch in flight joins the observers of its subject.\<close>

lemma join_in_flight:
  assumes "cache s k = None" "inFlightObservables s k = Some r" "subjects s r = Some sub"
    "\<not> isStopped sub" "thrownError sub = None"
  shows "get_subscribe k fb m now ob s =
           s\<lparr>subjects := (subjects s)(r \<mapsto> sub\<lparr>observers := observers sub @ [ob]\<rparr>)\<rparr>"
  using assms
  by (simp add: get_subscribe_def get_absent on_subject_def subject_subscribe_def)

lemma later_calls_join:
  assumes "cache s k = None" "inFlightObservables s k = Some r" "subjects s r = Some sub"
    "\<not> isStopped sub" "thrownError sub = None"
  shows "later_calls k f cs s =
           s\<lparr>subjects := (subjects s)(r \<mapsto> sub\<lparr>observers := observers sub @ callers cs\<rparr>)\<rparr>"
  using assms
proof (induction cs arbitrary: s sub)
  case Nil
  then have "(subjects s)(r \<mapsto> sub) = subjects s"
    by (simp add: fun_upd_idem)
  then show ?case by (simp add: later_calls_def callers_def)
next
  case (Cons c cs)
  obtain m now ob where c: "c = (m, now, ob)" by (cases c)
  let ?sub1 = "sub\<lparr>observers := observers sub @ [ob]\<rparr>"
  let ?s1 = "s\<lparr>subjects := (subjects s)(r \<mapsto> ?sub1)\<rparr>"
  have step: "get_subscribe k (Some f) m now ob s = ?s1"
    using Cons.prems by (rule join_in_flight)
  have "later_calls k f (c # cs) s = later_calls k f cs ?s1"
    by (simp add: later_calls_def c step)
  also have "\<dots> = ?s1\<lparr>subjects := (subjects ?s1)(r \<mapsto>
                 ?sub1\<lparr>observers := observers ?sub1 @ callers cs\<rparr>)\<rparr>"
    using Cons.prems by (intro Cons.IH) simp_all
  also have "\<dots> = s\<lparr>subjects := (subjects s)(r \<mapsto> sub\<lparr>observers := observers sub @ callers (c # cs)\<rparr>)\<rparr>"
    by (simp add: callers_def c)
  finally show ?case .
qed

text \<open>The first caller, finding nothing valid and nothing in flight, starts the fetch.\<close>

lemma first_call:
  assumes "inFlightObservables s k = None"
    and "\<forall>c. cache s k = Some c \<longrightarrow> timestamp c + lifeTime m < now"
  shows "get_subscribe k (Some f) m now ob s =
     s\<lparr>cache := (cache s)(k := None),
       invoked := invoked s @ [(k, f)],
       subjects := (subjects s)(next_subject s \<mapsto> new_Subject),
       next_subject := Suc (next_subject s),
       inFlightObservables := (inFlightObservables s)(k \<mapsto> next_subject s),
       fetches := (fetches s)(next_fetch s \<mapsto>
                    \<lparr>f_key = k, f_inFlight = next_subject s, f_subscriber = ob\<rparr>),
       next_fetch := Suc (next_fetch s)\<rparr>"
proof (cases "cache s k")
  case None
  then show ?thesis using assms by (simp add: get_absent get_subscribe_def fun_upd_idem)
next
  case (Some c)
  then show ?thesis using assms by (simp add: get_expired get_subscribe_def)
qed

lemma all_calls:
  assumes "inFlightObservables s k = None"
    and "\<forall>c. cache s k = Some c \<longrightarrow> timestamp c + lifeTime m < now"
  shows "later_calls k f cs (get_subscribe k (Some f) m now ob s) =
     s\<lparr>cache := (cache s)(k := None),
       invoked := invoked s @ [(k, f)],
       subjects := (subjects s)(next_subject s \<mapsto> new_Subject\<lparr>observers := callers cs\<rparr>),
       next_subject := Suc (next_subject s),
       inFlightObservables := (inFlightObservables s)(k \<mapsto> next_subject s),
       fetches := (fetches s)(next_fetch s \<mapsto>
                    \<lparr>f_key = k, f_inFlight = next_subject s, f_subscriber = ob\<rparr>),
       next_fetch := Suc (next_fetch s)\<rparr>"
  unfolding first_call[OF assms]
  by (subst later_calls_join[where r = "next_subject s" and sub = new_Subject])
     (simp_all add: new_Subject_def)

section \<open>CacheService: the claims\<close>

text \<open>
  What the in-flight map does guarantee. \<^verbatim>\<open>get\<close> returns a \<^verbatim>\<open>defer\<close>: the fallback is
  invoked and the in-flight subject registered only when that observable is
  subscribed. For callers that subscribe as they call
  (\<^verbatim>\<open>get(k, fallback, ...).subscribe(ob)\<close>, one caller after the other): if the first of
  them finds no valid entry and no fetch in flight for \<open>k\<close>, then after any number of
  further such callers (\<open>cs\<close>, each with its own lifetime and clock reading; nothing
  stores an entry in between, so none of them finds one) the fallback has been invoked
  exactly once and nobody has been notified yet. When that one fetch then emits \<open>v\<close>,
  every later caller receives \<open>v\<close> and the completion, the first caller receives \<open>v\<close>, and
  nothing else is delivered; when it fails with \<open>err\<close>, every caller receives \<open>err\<close>.
  The fallback is not invoked again in either case.
\<close>

theorem single_flight_subscribed_in_turn:
  assumes "inFlightObservables s k = None"
    and "\<forall>c. cache s k = Some c \<longrightarrow> timestamp c + lifeTime m < now"
  shows "invoked (later_calls k f cs (get_subscribe k (Some f) m now ob s)) = invoked s @ [(k, f)]
    \<and> delivered (later_calls k f cs (get_subscribe k (Some f) m now ob s)) = delivered s
    \<and> invoked (source_next (next_fetch s) v t (later_calls k f cs (get_subscribe k (Some f) m now ob s)))
        = invoked s @ [(k, f)]
    \<and> delivered (source_next (next_fetch s) v t (later_calls k f cs (get_subscribe k (Some f) m now ob s)))
        = delivered s @ map (\<lambda>c. (c, Next v)) (callers cs) @ map (\<lambda>c. (c, Complete)) (callers cs)
            @ [(ob, Next v)]
    \<and> invoked (source_error (next_fetch s) err (later_calls k f cs (get_subscribe k (Some f) m now ob s)))
        = invoked s @ [(k, f)]
    \<and> delivered (source_error (next_fetch s) err (later_calls k f cs (get_subscribe k (Some f) m now ob s)))
        = delivered s @ map (\<lambda>c. (c, Error err)) (callers cs) @ [(ob, Error err)]"
  unfolding all_calls[OF assms]
  by (simp add: source_next_def source_error_def Let_def set_c_def on_subject_def
       subject_next_def subject_complete_def subject_error_def new_Subject_def)

text \<open>
  Three callers on an empty cache (observers 1, 2 and 3, at times 0, 0 and 1): one
  invocation of the fallback; a value 10 reaches all three, and so does a failure.
\<close>

theorem single_flight_witness:
  "invoked (later_calls ''a'' 0 [(None, 0, 2), (None, 1, 3)]
             (get_subscribe ''a'' (Some 0) None 0 1 (new_CacheService :: (nat, unit) CacheService)))
     = [(''a'', 0)]
   \<and> delivered (source_next 0 10 50 (later_calls ''a'' 0 [(None, 0, 2), (None, 1, 3)]
             (get_subscribe ''a'' (Some 0) None 0 1 (new_CacheService :: (nat, unit) CacheService))))
     = [(2, Next 10), (3, Next 10), (2, Complete), (3, Complete), (1, Next 10)]
   \<and> delivered (source_error 0 (Raised ()) (later_calls ''a'' 0 [(None, 0, 2), (None, 1, 3)]
             (get_subscribe ''a'' (Some 0) None 0 1 (new_CacheService :: (nat, unit) CacheService))))
     = [(2, Error (Raised ())), (3, Error (Raised ())), (1, Error (Raised ()))]"
  using single_flight_subscribed_in_turn
    [of "new_CacheService :: (nat, unit) CacheService" "''a''" None 0 0 "[(None, 0, 2), (None, 1, 3)]" 1 10 50 "Raised ()"]
  by (simp add: new_CacheService_def callers_def)

text \<open>
  C1 (single flight) does not hold of the code. The check for a fetch in flight runs
  when \<^verbatim>\<open>get\<close> is called, but the in-flight subject is registered only when the
  returned \<^verbatim>\<open>defer\<close> is subscribed. Two callers that call \<^verbatim>\<open>get('a', fallback)\<close> on an
  empty cache and then subscribe, both before any fetch has answered, each run the
  fallback: it is invoked twice, the second request being sent while the first is
  awaited. When the first fetch emits 10 and the second 20, observer 1 receives 10 and
  observer 2 receives 20: the two callers do not observe the same value.
\<close>

theorem single_flight_two_gets_then_subscribe:
  "invoked two_gets_then_subscribe = [(''a'', 0), (''a'', 0)]
   \<and> delivered two_gets_then_subscribe = []
   \<and> delivered (source_next 1 20 6 (source_next 0 10 5 two_gets_then_subscribe))
       = [(1, Next 10), (2, Next 20)]"
  by (simp add: two_gets_then_subscribe_def get_def validCachedValue_def
        new_CacheService_def source_next_def Let_def set_c_def on_subject_def subject_next_def
        subject_complete_def new_Subject_def)

text \<open>
  C2 (expiry boundary), as the code has it. The test is
  \<^verbatim>\<open>timestamp + maxLifeTime < Date.now()\<close>, so an entry stored at \<open>t0 = timestamp c\<close> is
  served at every time up to and including \<open>t0 + T\<close> (so also at \<open>t0 + T - 1\<close>): \<^verbatim>\<open>get\<close>
  returns \<^verbatim>\<open>of(value)\<close>, leaves the state alone, and subscribing to it invokes no
  fallback. From \<open>t0 + T + 1\<close> on the entry is expired: \<^verbatim>\<open>get\<close> deletes it and, when no
  fetch for the key is in flight, returns the \<^verbatim>\<open>defer\<close> whose subscription invokes the
  fallback if one is supplied, and otherwise the observable that fails with
  MissingFallbackError. When a fetch for the key is in flight, it returns that fetch's
  subject instead, and subscribing to it invokes nothing.
\<close>

theorem get_expiry_boundary:
  assumes "cache s k = Some c"
  shows "(now \<le> timestamp c + lifeTime m \<longrightarrow>
            get k fb m now s = (Of (value_c c), s) \<and>
            invoked (get_subscribe k fb m now ob s) = invoked s \<and>
            delivered (get_subscribe k fb m now ob s) = delivered s @ [(ob, Next (value_c c)), (ob, Complete)]) \<and>
         (timestamp c + lifeTime m < now \<longrightarrow>
            cache (snd (get k fb m now s)) k = None \<and>
            (inFlightObservables s k = None \<longrightarrow>
               get k (Some f) m now s = (Defer k f, s\<lparr>cache := (cache s)(k := None)\<rparr>) \<and>
               invoked (get_subscribe k (Some f) m now ob s) = invoked s @ [(k, f)] \<and>
               get k None m now s = (ThrowError MissingFallbackError, s\<lparr>cache := (cache s)(k := None)\<rparr>) \<and>
               delivered (get_subscribe k None m now ob s) = delivered s @ [(ob, Error MissingFallbackError)]) \<and>
            (\<forall>r. inFlightObservables s k = Some r \<longrightarrow>
               get k fb m now s = (InFlight r, s\<lparr>cache := (cache s)(k := None)\<rparr>) \<and>
               invoked (get_subscribe k fb m now ob s) = invoked s))"
  using assms
  by (auto simp: get_fresh get_expired get_subscribe_def)

text \<open>The entry stored at 100, with lifetime 50: served at 149, expired at 151.\<close>

theorem get_expiry_boundary_witness:
  "get ''a'' (Some 0) (Some 50) 149 cached_at_100 = (Of 7, cached_at_100)
   \<and> invoked (get_subscribe ''a'' (Some 0) (Some 50) 149 1 cached_at_100) = []
   \<and> get ''a'' (Some 0) (Some 50) 151 cached_at_100
       = (Defer ''a'' 0, cached_at_100\<lparr>cache := (cache cached_at_100)(''a'' := None)\<rparr>)
   \<and> invoked (get_subscribe ''a'' (Some 0) (Some 50) 151 1 cached_at_100) = [(''a'', 0)]
   \<and> delivered (get_subscribe ''a'' None (Some 50) 151 1 cached_at_100) = [(1, Error MissingFallbackError)]"
  using get_expiry_boundary
      [of cached_at_100 "''a''" "\<lparr>timestamp = 100, value_c = 7\<rparr>" 149 "Some 50" "Some 0" 1 0]
    get_expiry_boundary
      [of cached_at_100 "''a''" "\<lparr>timestamp = 100, value_c = 7\<rparr>" 151 "Some 50" "Some 0" 1 0]
  by (simp add: cached_at_100_def set_c_def new_CacheService_def lifeTime_def)

text \<open>
  C2 as stated fails at exactly \<open>t0 + T\<close>: the entry stored at 100 with lifetime 50 is
  still served at 150, and the supplied fallback is not invoked. It also fails after
  \<open>t0 + T\<close> while a fetch for the key is in flight: at 151 the caller that supplies
  fallback 9 is handed the subject of the running fetch, and fallback 9 is never invoked.
\<close>

theorem get_expiry_boundary_counterexample:
  "get ''a'' (Some 0) (Some 50) (100 + 50) cached_at_100 = (Of 7, cached_at_100)
   \<and> invoked (get_subscribe ''a'' (Some 0) (Some 50) (100 + 50) 1 cached_at_100) = []
   \<and> fst (get ''a'' (Some 9) (Some 50) (100 + 50 + 1) set_while_in_flight) = InFlight 0
   \<and> invoked set_while_in_flight = [(''a'', 0)]
   \<and> invoked (get_subscribe ''a'' (Some 9) (Some 50) (100 + 50 + 1) 2 set_while_in_flight) = [(''a'', 0)]"
  by (simp add: get_subscribe_def get_def validCachedValue_def cached_at_100_def set_c_def
        new_CacheService_def lifeTime_def set_while_in_flight_def on_subject_def
        subject_subscribe_def new_Subject_def DEFAULT_LIFE_TIME_def)

text \<open>
  C3 (explicit collection), as the code has it. The test is
  \<^verbatim>\<open>timestamp + maxLifeTime < Date.now()\<close>: \<^verbatim>\<open>collect(k, T)\<close> deletes the entry if and only
  if \<open>now - storedAt > T\<close> and changes nothing else; otherwise, and on an absent key, the
  state is untouched.
\<close>

theorem collect_deletes_iff_older:
  "(cache s k = None \<longrightarrow> collect k m now s = s) \<and>
   (\<forall>c. cache s k = Some c \<longrightarrow>
      (has k (collect k m now s) \<longleftrightarrow> now - timestamp c \<le> lifeTime m) \<and>
      (lifeTime m < now - timestamp c \<longrightarrow> collect k m now s = s\<lparr>cache := (cache s)(k := None)\<rparr>) \<and>
      (now - timestamp c \<le> lifeTime m \<longrightarrow> collect k m now s = s))"
  by (auto simp: collect_def has_def)

text \<open>Absent key: nothing. Age 51 against lifetime 50: deleted. Age 50: kept.\<close>

theorem collect_deletes_iff_older_witness:
  "collect ''b'' None 0 cached_at_100 = cached_at_100
   \<and> \<not> has ''a'' (collect ''a'' (Some 50) 151 cached_at_100)
   \<and> collect ''a'' (Some 50) 150 cached_at_100 = cached_at_100"
  using collect_deletes_iff_older[of cached_at_100 "''b''" None 0]
    collect_deletes_iff_older[of cached_at_100 "''a''" "Some 50" 151]
    collect_deletes_iff_older[of cached_at_100 "''a''" "Some 50" 150]
  by (simp add: cached_at_100_def set_c_def new_CacheService_def lifeTime_def has_def)

text \<open>
  C3 as stated fails at exactly \<open>now - storedAt = T\<close>: the entry stored at 100 is of age
  50 at time 150, and \<^verbatim>\<open>collect('a', 50)\<close> keeps it.
\<close>

theorem collect_boundary_counterexample:
  "(150 :: int) - 100 \<ge> 50 \<and> has ''a'' (collect ''a'' (Some 50) 150 cached_at_100)"
  by (simp add: has_def collect_def cached_at_100_def set_c_def new_CacheService_def lifeTime_def)

text \<open>
  C7 (what removes an entry), as the code has it. Whatever happens to the service at
  time \<open>now\<close> (a method call, a subscription, a notification of a running fetch), an
  entry \<open>c\<close> stored under \<open>k\<close> is afterwards still there unchanged, unless
  \<^item> it was \<^verbatim>\<open>collect(k, T)\<close> and the entry was stale (\<open>timestamp c + T < now\<close>), or
  \<^item> it was \<^verbatim>\<open>get(k, ...)\<close> and the entry had expired for that call's lifetime
    (\<^verbatim>\<open>validCachedValue\<close> deletes the expired value), or
  \<^item> it was overwritten by \<^verbatim>\<open>set(k, v)\<close>, or by a value emitted by a fetch for \<open>k\<close>.
\<close>

theorem entry_lifecycle:
  assumes "cache s k = Some c"
  shows "cache (run_op now op s) k = Some c
       \<or> (\<exists>m. op = Collect k m \<and> timestamp c + lifeTime m < now \<and> cache (run_op now op s) k = None)
       \<or> (\<exists>fb m. op = Get k fb m \<and> timestamp c + lifeTime m < now \<and> cache (run_op now op s) k = None)
       \<or> (\<exists>v. op = Set k v \<and> cache (run_op now op s) k = Some \<lparr>timestamp = now, value_c = v\<rparr>)
       \<or> (\<exists>i v f. op = SourceNext i v \<and> fetches s i = Some f \<and> f_key f = k
             \<and> cache (run_op now op s) k = Some \<lparr>timestamp = now, value_c = v\<rparr>)"
proof (cases op)
  case (Get k' fb m)
  then show ?thesis using assms
    by (auto simp: get_def validCachedValue_def split: option.splits)
next
  case (Set k' v)
  then show ?thesis using assms by (auto simp: set_c_def)
next
  case (Has k')
  then show ?thesis using assms by simp
next
  case (Collect k' m)
  then show ?thesis using assms by (auto simp: collect_def split: option.splits)
next
  case (Subscribe obs ob)
  then show ?thesis using assms by simp
next
  case (SourceNext i v)
  then show ?thesis using assms
    by (auto simp: source_next_def Let_def set_c_def split: option.splits)
next
  case (SourceError i err)
  then show ?thesis using assms
    by (auto simp: source_error_def Let_def split: option.splits)
next
  case (SourceComplete i)
  then show ?thesis using assms
    by (auto simp: source_complete_def split: option.splits)
qed

text \<open>
  The entry stored at 100 survives a \<^verbatim>\<open>get\<close> at 120 with lifetime 50, a \<^verbatim>\<open>get\<close> and a
  \<^verbatim>\<open>collect\<close> of another key, and a failing fetch.
\<close>

theorem entry_lifecycle_witness:
  "cache (run_op 120 (Get ''a'' None (Some 50)) cached_at_100) ''a'' = Some \<lparr>timestamp = 100, value_c = 7\<rparr>
   \<and> cache (run_op 500000 (Get ''b'' (Some 0) None) cached_at_100) ''a'' = Some \<lparr>timestamp = 100, value_c = 7\<rparr>
   \<and> cache (run_op 500000 (Collect ''b'' None) cached_at_100) ''a'' = Some \<lparr>timestamp = 100, value_c = 7\<rparr>
   \<and> cache (run_op 500000 (SourceError 0 (Raised ())) cached_at_100) ''a'' = Some \<lparr>timestamp = 100, value_c = 7\<rparr>"
  using entry_lifecycle[of cached_at_100 "''a''" "\<lparr>timestamp = 100, value_c = 7\<rparr>" 120 "Get ''a'' None (Some 50)"]
    entry_lifecycle[of cached_at_100 "''a''" "\<lparr>timestamp = 100, value_c = 7\<rparr>" 500000 "Get ''b'' (Some 0) None"]
    entry_lifecycle[of cached_at_100 "''a''" "\<lparr>timestamp = 100, value_c = 7\<rparr>" 500000 "Collect ''b'' None"]
    entry_lifecycle[of cached_at_100 "''a''" "\<lparr>timestamp = 100, value_c = 7\<rparr>" 500000 "SourceError 0 (Raised ())"]
  by (simp add: cached_at_100_def set_c_def new_CacheService_def lifeTime_def)

text \<open>
  C7 as stated fails: a \<^verbatim>\<open>get\<close> deletes an entry. The entry stored at 100 is in the
  store; after \<^verbatim>\<open>get('a', undefined, 50)\<close> at time 151 it is not.
\<close>

theorem get_deletes_expired_counterexample:
  "has ''a'' cached_at_100 \<and> \<not> has ''a'' (snd (get ''a'' None (Some 50) 151 cached_at_100))"
  by (simp add: has_def get_def validCachedValue_def cached_at_100_def set_c_def
        new_CacheService_def lifeTime_def)

text \<open>
  C8 (no fallback). When \<open>k\<close> has no fetch in flight and no entry that is still valid,
  \<^verbatim>\<open>get(k)\<close> without a fallback returns the observable that fails with
  MissingFallbackError: a subscriber receives exactly that error, and no fallback is
  invoked. The call leaves the in-flight map and every other key's entry as they were;
  the only change is that an expired entry of \<open>k\<close> is removed (with no entry at all, the
  state is unchanged).
\<close>

theorem get_without_fallback:
  assumes "inFlightObservables s k = None"
    and "\<forall>c. cache s k = Some c \<longrightarrow> timestamp c + lifeTime m < now"
  shows "get k None m now s = (ThrowError MissingFallbackError, s\<lparr>cache := (cache s)(k := None)\<rparr>)
       \<and> (cache s k = None \<longrightarrow> snd (get k None m now s) = s)
       \<and> inFlightObservables (snd (get k None m now s)) = inFlightObservables s
       \<and> (\<forall>k'. k' \<noteq> k \<longrightarrow> cache (snd (get k None m now s)) k' = cache s k')
       \<and> delivered (get_subscribe k None m now ob s) = delivered s @ [(ob, Error MissingFallbackError)]
       \<and> invoked (get_subscribe k None m now ob s) = invoked s"
proof (cases "cache s k")
  case None
  then show ?thesis using assms by (simp add: get_absent get_subscribe_def delete_absent)
next
  case (Some c)
  then show ?thesis using assms by (simp add: get_expired get_subscribe_def)
qed

text \<open>An empty cache, and the entry stored at 100 read at 151 with lifetime 50.\<close>

theorem get_without_fallback_witness:
  "get ''a'' None None 0 (new_CacheService :: (nat, unit) CacheService)
     = (ThrowError MissingFallbackError, new_CacheService)
   \<and> delivered (get_subscribe ''a'' None None 0 1 (new_CacheService :: (nat, unit) CacheService))
     = [(1, Error MissingFallbackError)]
   \<and> fst (get ''a'' None (Some 50) 151 cached_at_100) = ThrowError MissingFallbackError
   \<and> inFlightObservables (snd (get ''a'' None (Some 50) 151 cached_at_100)) = inFlightObservables cached_at_100"
  using get_without_fallback[of "new_CacheService :: (nat, unit) CacheService" "''a''" None 0 1]
    get_without_fallback[of cached_at_100 "''a''" "Some 50" 151 1]
  by (simp add: cached_at_100_def set_c_def new_CacheService_def lifeTime_def)

section \<open>StreamService: lemmas\<close>

lemma run_timers_fields [simp]:
  "streams (run_timers now s) = streams s"
  "queried (run_timers now s) = queried s"
  "notified (run_timers now s) = notified s"
  "next_query (run_timers now s) = next_query s"
  "pipelines (run_timers now s) r = map_option (timer_fired now) (pipelines s r)"
  by (simp_all add: run_timers_def)

lemma timer_fired_fields [simp]:
  "queryOnce (timer_fired now p) = queryOnce p"
  "updateThrottleTime (timer_fired now p) = updateThrottleTime p"
  "connected (timer_fired now p) = connected p"
  "finished (timer_fired now p) = finished p"
  "inner (timer_fired now p) = inner p"
  "replay (timer_fired now p) = replay p"
  "listeners (timer_fired now p) = listeners p"
  "throttled (timer_fired now p) = (if idle now p then None else throttled p)"
  by (auto simp: timer_fired_def idle_def split: option.splits)

lemma update_unconnected:
  "pipelines s r = Some p \<Longrightarrow> \<not> connected p \<Longrightarrow> update r payload c now s = s"
  by (simp add: update_def)

lemma applyUpdates_unconnected:
  "streams s k = Some r \<Longrightarrow> pipelines s r = Some p \<Longrightarrow> \<not> connected p \<Longrightarrow> applyUpdates k ups s = s"
  by (induction ups) (auto simp: applyUpdates_def applyUpdate_def update_unconnected)

text \<open>
  One refresh request at time \<open>now\<close>, after the due timers have run: it reaches
  \<^verbatim>\<open>queryOnce\<close> when the pipeline is connected, not finished and not throttled, and is
  dropped otherwise.
\<close>

lemma request_passes:
  assumes "streams s k = Some r" "pipelines s r = Some p" "connected p" "\<not> finished p" "idle now p"
  shows "applyUpdate k payload Returns now (run_timers now s) =
           (run_timers now s)\<lparr>pipelines := (pipelines (run_timers now s))(r \<mapsto>
                p\<lparr>throttled := Some (now + max 0 (updateThrottleTime p)),
                  inner := inner p @ [next_query s]\<rparr>),
              next_query := Suc (next_query s),
              queried := queried s @ [(queryOnce p, payload)]\<rparr>"
proof -
  have fired: "timer_fired now p = p\<lparr>throttled := None\<rparr>"
    using assms(5) by (auto simp: timer_fired_def idle_def split: option.splits)
  show ?thesis
    using assms by (simp add: applyUpdate_def update_def fired)
qed

lemma request_throws:
  assumes "streams s k = Some r" "pipelines s r = Some p" "connected p" "\<not> finished p" "idle now p"
  shows "applyUpdate k payload (Throws err) now (run_timers now s) =
           (run_timers now s)\<lparr>pipelines := (pipelines (run_timers now s))(r \<mapsto>
                p\<lparr>connected := False, throttled := None, inner := [], replay := None,
                  listeners := []\<rparr>),
              queried := queried s @ [(queryOnce p, payload)],
              notified := notified s @ map (\<lambda>ob. (ob, Error err)) (listeners p)\<rparr>"
proof -
  have fired: "timer_fired now p = p\<lparr>throttled := None\<rparr>"
    using assms(5) by (auto simp: timer_fired_def idle_def split: option.splits)
  show ?thesis
    using assms by (simp add: applyUpdate_def update_def fired)
qed

lemma request_dropped:
  assumes "streams s k = Some r" "pipelines s r = Some p" "\<not> connected p \<or> finished p \<or> \<not> idle now p"
  shows "applyUpdate k payload c now (run_timers now s) = run_timers now s"
  using assms by (auto simp: applyUpdate_def update_def idle_def split: option.splits)

lemma request_step:
  assumes "streams s k = Some r" "pipelines s r = Some p"
  shows "\<exists>p'. streams (applyUpdate k payload c now (run_timers now s)) k = Some r
      \<and> pipelines (applyUpdate k payload c now (run_timers now s)) r = Some p'
      \<and> finished p' = finished p
      \<and> updateThrottleTime p' = updateThrottleTime p \<and> queryOnce p' = queryOnce p
      \<and> (if connected p \<and> \<not> finished p \<and> idle now p
          then queried (applyUpdate k payload c now (run_timers now s)) = queried s @ [(queryOnce p, payload)]
             \<and> connected p' = (c = Returns)
             \<and> throttled p' = (if c = Returns then Some (now + max 0 (updateThrottleTime p)) else None)
          else queried (applyUpdate k payload c now (run_timers now s)) = queried s
             \<and> connected p' = connected p
             \<and> throttled p' = (if idle now p then None else throttled p))"
proof (cases "connected p \<and> \<not> finished p \<and> idle now p")
  case True
  then show ?thesis
    using assms by (cases c) (simp_all add: request_passes request_throws)
next
  case False
  then have "applyUpdate k payload c now (run_timers now s) = run_timers now s"
    using assms by (intro request_dropped) auto
  then show ?thesis
    using False assms by auto
qed

section \<open>StreamService: the claims\<close>

text \<open>
  C4 (duplicate registration). \<^verbatim>\<open>registerStream$\<close> for a key that has a handler throws
  the duplicate-key error and leaves the whole state of the registry as it was: the
  handler of the key, its pipeline and everything else are the same objects in the
  same state. In particular, registering \<open>k\<close> with \<open>f\<close> on a registry that does not know
  \<open>k\<close> succeeds, and registering \<open>k\<close> again with \<open>g\<close> fails and changes nothing.
\<close>

theorem duplicate_registration:
  "(streams s k \<noteq> None \<longrightarrow>
      registerStream_S k g t s = (Inl (DuplicateKeyError k), s)) \<and>
   (streams s k = None \<longrightarrow>
      fst (registerStream_S k f t s) = Inr (next_pipeline s) \<and>
      registerStream_S k g t' (snd (registerStream_S k f t s))
        = (Inl (DuplicateKeyError k), snd (registerStream_S k f t s)))"
  by (simp add: registerStream_S_def)

text \<open>\<^verbatim>\<open>registerStream$('feed', f)\<close> on a new registry, then \<^verbatim>\<open>registerStream$('feed', g, 50)\<close>.\<close>

theorem duplicate_registration_witness:
  "fst (registerStream_S ''feed'' 0 None (new_StreamService :: (nat, nat, unit) StreamService)) = Inr 0
   \<and> registerStream_S ''feed'' 1 (Some 50)
        (snd (registerStream_S ''feed'' 0 None (new_StreamService :: (nat, nat, unit) StreamService)))
      = (Inl (DuplicateKeyError ''feed''),
         snd (registerStream_S ''feed'' 0 None (new_StreamService :: (nat, nat, unit) StreamService)))"
  using duplicate_registration
    [of "new_StreamService :: (nat, nat, unit) StreamService" "''feed''" 1 None 0 "Some 50"]
  by (simp add: new_StreamService_def)

text \<open>
  C5 (throttled refresh). For a registered stream with window 1000, three
  \<^verbatim>\<open>applyUpdate\<close> calls at the times 0, 200 and 1100 add at most two invocations of
  \<^verbatim>\<open>queryOnce\<close>, whatever the state of the stream and whatever the query calls do.
  When no throttle window is open at time 0 and the query call for the request at 0
  returns, the invocations are exactly those for the requests at 0 and 1100 if the
  stream is live (subscribed and not cleared), and none otherwise; the request at 200
  leaves the state exactly as it found it, so nothing of it is kept for later.
\<close>

theorem throttled_refresh:
  assumes "streams s k = Some r" "pipelines s r = Some p" "updateThrottleTime p = 1000"
  shows "length (queried (three_updates k p0 c0 p200 c200 p1100 c1100 s)) \<le> length (queried s) + 2
     \<and> (idle 0 p \<longrightarrow>
          queried (three_updates k p0 Returns p200 c200 p1100 c1100 s) =
            queried s @ (if connected p \<and> \<not> finished p
                         then [(queryOnce p, p0), (queryOnce p, p1100)] else [])
        \<and> applyUpdate k p200 c200 200 (run_timers 200 (applyUpdate k p0 Returns 0 (run_timers 0 s)))
            = run_timers 200 (applyUpdate k p0 Returns 0 (run_timers 0 s)))"
proof -
  have count: "length (queried (three_updates k p0 c0 p200 c200 p1100 c1100 s)) \<le> length (queried s) + 2"
  proof -
    let ?s1 = "applyUpdate k p0 c0 0 (run_timers 0 s)"
    let ?s2 = "applyUpdate k p200 c200 200 (run_timers 200 ?s1)"
    let ?s3 = "applyUpdate k p1100 c1100 1100 (run_timers 1100 ?s2)"
    obtain p1 where p1: "streams ?s1 k = Some r" "pipelines ?s1 r = Some p1"
        "finished p1 = finished p" "updateThrottleTime p1 = 1000"
        "if connected p \<and> \<not> finished p \<and> idle 0 p
         then queried ?s1 = queried s @ [(queryOnce p, p0)]
            \<and> connected p1 = (c0 = Returns)
            \<and> throttled p1 = (if c0 = Returns then Some 1000 else None)
         else queried ?s1 = queried s \<and> connected p1 = connected p
            \<and> throttled p1 = (if idle 0 p then None else throttled p)"
      using request_step[OF assms(1,2), of p0 c0 0] assms(3) by auto
    obtain p2 where p2: "streams ?s2 k = Some r" "pipelines ?s2 r = Some p2"
        "finished p2 = finished p" "updateThrottleTime p2 = 1000"
        "if connected p1 \<and> \<not> finished p \<and> idle 200 p1
         then length (queried ?s2) = Suc (length (queried ?s1))
            \<and> connected p2 = (c200 = Returns)
            \<and> throttled p2 = (if c200 = Returns then Some 1200 else None)
         else queried ?s2 = queried ?s1 \<and> connected p2 = connected p1
            \<and> throttled p2 = (if idle 200 p1 then None else throttled p1)"
      using request_step[OF p1(1,2), of p200 c200 200] p1(3,4) by auto
    have p3:
        "if connected p2 \<and> \<not> finished p \<and> idle 1100 p2
         then length (queried ?s3) = Suc (length (queried ?s2))
         else queried ?s3 = queried ?s2"
      using request_step[OF p2(1,2), of p1100 c1100 1100] p2(3,4) by auto
    have "length (queried ?s3) \<le> length (queried s) + 2"
      using p1(5) p2(5) p3
      by (auto simp: idle_def split: if_splits option.splits)
    then show ?thesis by (simp add: three_updates_def)
  qed
  let ?s1 = "applyUpdate k p0 Returns 0 (run_timers 0 s)"
  let ?s2 = "applyUpdate k p200 c200 200 (run_timers 200 ?s1)"
  let ?s3 = "applyUpdate k p1100 c1100 1100 (run_timers 1100 ?s2)"
  obtain p1 where p1: "streams ?s1 k = Some r" "pipelines ?s1 r = Some p1"
      "finished p1 = finished p" "updateThrottleTime p1 = 1000" "queryOnce p1 = queryOnce p"
      "if connected p \<and> \<not> finished p \<and> idle 0 p
       then queried ?s1 = queried s @ [(queryOnce p, p0)] \<and> connected p1 \<and> throttled p1 = Some 1000
       else queried ?s1 = queried s \<and> connected p1 = connected p
          \<and> throttled p1 = (if idle 0 p then None else throttled p)"
    using request_step[OF assms(1,2), of p0 Returns 0] assms(3) by auto
  have dropped: "?s2 = run_timers 200 ?s1" if "idle 0 p"
  proof (rule request_dropped[OF p1(1,2)])
    show "\<not> connected p1 \<or> finished p1 \<or> \<not> idle 200 p1"
      using p1(3,6) that by (auto simp: idle_def split: if_splits)
  qed
  have p1_after: "pipelines (run_timers 200 ?s1) r = Some (timer_fired 200 p1)"
    by (simp add: p1(2))
  have exact: "queried ?s3 = queried s @ (if connected p \<and> \<not> finished p
                         then [(queryOnce p, p0), (queryOnce p, p1100)] else [])" if "idle 0 p"
  proof -
    have s3: "?s3 = applyUpdate k p1100 c1100 1100 (run_timers 1100 (run_timers 200 ?s1))"
      using dropped[OF that] by simp
    have k2: "streams (run_timers 200 ?s1) k = Some r"
      by (simp add: p1(1))
    have p3:
        "if connected (timer_fired 200 p1) \<and> \<not> finished (timer_fired 200 p1) \<and> idle 1100 (timer_fired 200 p1)
         then queried ?s3 = queried (run_timers 200 ?s1) @ [(queryOnce (timer_fired 200 p1), p1100)]
         else queried ?s3 = queried (run_timers 200 ?s1)"
      using request_step[OF k2 p1_after, of p1100 c1100 1100] unfolding s3[symmetric] by auto
    show ?thesis
      using p3 p1(3,5,6) that
      by (auto simp: idle_def split: if_splits option.splits)
  qed
  show ?thesis
    unfolding three_updates_def
    using count[unfolded three_updates_def] exact dropped by blast
qed

text \<open>
  The stream \<open>''feed''\<close>, registered with the default window 1000 and subscribed: the
  payloads 10, 20 and 30 sent at 0, 200 and 1100 give the two queries for 10 and 30.
\<close>

theorem throttled_refresh_witness:
  "queried (three_updates ''feed'' 10 Returns 20 Returns 30 Returns feed_live) = [(0, 10), (0, 30)]
   \<and> applyUpdate ''feed'' 20 Returns 200 (run_timers 200 (applyUpdate ''feed'' 10 Returns 0 (run_timers 0 feed_live)))
       = run_timers 200 (applyUpdate ''feed'' 10 Returns 0 (run_timers 0 feed_live))"
  using throttled_refresh
    [of feed_live "''feed''" 0
        "\<lparr>queryOnce = 0, updateThrottleTime = 1000, connected = True, throttled = None,
          inner = [], finished = False, replay = None, listeners = [1]\<rparr>"
        10 Returns 20 Returns 30 Returns]
  by (simp add: feed_live_def feed_registered_def registerStream_S_def subscribe_stream_def
        replayed_def new_StreamService_def throttleWindow_def idle_def)

text \<open>
  What the pipeline does absorb. In a live stream (subscribed, not cleared) with a
  query \<open>q\<close> running, an error notification of the observable that query returned
  delivers nothing to any subscriber, leaves the registry and the stream as they were
  apart from ending that one inner subscription (same listeners, same replay value,
  not finished), and no value can come from that query any more. A later refresh
  request made when no throttle window is open, whose query call returns, invokes
  \<^verbatim>\<open>queryOnce\<close> again, and when that query emits \<open>v\<close>, every listener receives \<open>v\<close> and \<open>v\<close>
  becomes the replay value.
\<close>

theorem query_error_notification_absorbed:
  assumes "streams s k = Some r" "pipelines s r = Some p" "connected p" "\<not> finished p"
    "q \<in> set (inner p)"
  shows "notified (query_error r q err s) = notified s
     \<and> streams (query_error r q err s) = streams s
     \<and> pipelines (query_error r q err s) r = Some (p\<lparr>inner := removeAll q (inner p)\<rparr>)
     \<and> query_next r q v' (query_error r q err s) = query_error r q err s
     \<and> (idle now p \<longrightarrow>
          queried (applyUpdate k payload Returns now (run_timers now (query_error r q err s)))
            = queried s @ [(queryOnce p, payload)]
        \<and> notified (query_next r (next_query s) v
                      (applyUpdate k payload Returns now (run_timers now (query_error r q err s))))
            = notified s @ map (\<lambda>ob. (ob, Next v)) (listeners p)
        \<and> map_option replay (pipelines (query_next r (next_query s) v
                      (applyUpdate k payload Returns now (run_timers now (query_error r q err s)))) r)
            = Some (Some v))"
proof -
  let ?e = "query_error r q err s"
  let ?p = "p\<lparr>inner := removeAll q (inner p)\<rparr>"
  have e: "?e = s\<lparr>pipelines := (pipelines s)(r \<mapsto> ?p)\<rparr>"
    using assms by (simp add: query_error_def query_complete_def)
  have e_fields: "notified ?e = notified s" "streams ?e = streams s" "pipelines ?e r = Some ?p"
      "next_query ?e = next_query s" "queried ?e = queried s"
    by (simp_all add: e)
  have no_value: "query_next r q v' ?e = ?e"
    by (simp add: query_next_def e_fields)
  have later: "applyUpdate k payload Returns now (run_timers now ?e) =
           (run_timers now ?e)\<lparr>pipelines := (pipelines (run_timers now ?e))(r \<mapsto>
                ?p\<lparr>throttled := Some (now + max 0 (updateThrottleTime ?p)),
                  inner := inner ?p @ [next_query ?e]\<rparr>),
              next_query := Suc (next_query ?e),
              queried := queried ?e @ [(queryOnce ?p, payload)]\<rparr>" if "idle now p"
    using assms that by (intro request_passes) (simp_all add: e_fields idle_def)
  show ?thesis
    using e_fields no_value assms(3,4)
    by (auto simp: later query_next_def)
qed

text \<open>
  The stream \<open>''feed''\<close> with its first query (number 0, started at time 0) running: the
  query's observable fails, nobody is notified; a request at time 1200 starts query 1,
  which emits 42, and the subscriber receives 42.
\<close>

theorem query_error_notification_absorbed_witness:
  "notified (query_error 0 0 (Raised ()) feed_querying) = []
   \<and> queried (applyUpdate ''feed'' 6 Returns 1200 (run_timers 1200 (query_error 0 0 (Raised ()) feed_querying)))
       = [(0, 5), (0, 6)]
   \<and> notified (query_next 0 1 42
        (applyUpdate ''feed'' 6 Returns 1200 (run_timers 1200 (query_error 0 0 (Raised ()) feed_querying))))
       = [(1, Next 42)]"
proof -
  let ?p = "\<lparr>queryOnce = 0, updateThrottleTime = 1000, connected = True, throttled = Some 1000,
             inner = [0], finished = False, replay = None, listeners = [1]\<rparr> :: nat pipeline"
  have state: "streams feed_querying ''feed'' = Some 0" "pipelines feed_querying 0 = Some ?p"
      "notified feed_querying = []" "queried feed_querying = [(0, 5)]" "next_query feed_querying = 1"
    by (simp_all add: feed_querying_def feed_live_def feed_registered_def registerStream_S_def
          subscribe_stream_def replayed_def new_StreamService_def throttleWindow_def
          applyUpdate_def update_def)
  have live: "connected ?p" "\<not> finished ?p" "0 \<in> set (inner ?p)" "idle 1200 ?p"
    by (simp_all add: idle_def)
  show ?thesis
    using query_error_notification_absorbed[OF state(1,2) live(1,2,3), of "Raised ()" 0 1200 6 42] live(4)
    by (simp add: state(3,4,5))
qed

text \<open>
  C6 (a failing query is absorbed) does not hold of the code when the failure is an
  exception thrown by the call \<^verbatim>\<open>queryOnce(payload)\<close> itself: \<^verbatim>\<open>catchError(() => EMPTY)\<close>
  is piped onto the observable the call returns, so it never sees that exception.
  In the stream \<open>''feed''\<close> with observer 1 subscribed, the request at time 0 reaches
  \<^verbatim>\<open>queryOnce(5)\<close>, which throws \<^verbatim>\<open>new Error('boom')\<close>: observer 1 receives that error,
  and the stream is disconnected with nobody listening, although its handler is still
  registered. The request at time 1200, whose query call would return, reaches no
  query, and nothing more is delivered.
\<close>

theorem query_throw_reaches_subscribers:
  "notified feed_thrown = [(1, Error (ErrorObj ''boom''))]
   \<and> queried feed_thrown = [(0, 5)]
   \<and> getHandler ''feed'' feed_thrown = Some 0
   \<and> map_option connected (pipelines feed_thrown 0) = Some False
   \<and> map_option listeners (pipelines feed_thrown 0) = Some []
   \<and> queried (applyUpdate ''feed'' 6 Returns 1200 (run_timers 1200 feed_thrown)) = [(0, 5)]
   \<and> notified (applyUpdate ''feed'' 6 Returns 1200 (run_timers 1200 feed_thrown))
       = [(1, Error (ErrorObj ''boom''))]"
  by (simp add: feed_thrown_def feed_live_def feed_registered_def registerStream_S_def
        subscribe_stream_def replayed_def new_StreamService_def throttleWindow_def
        applyUpdate_def update_def getHandler_def run_timers_def timer_fired_def query_next_def)

text \<open>
  C9 (unknown key). For a key without a handler, \<^verbatim>\<open>applyUpdate$\<close> returns \<^verbatim>\<open>of(true)\<close>,
  the observable that emits \<^verbatim>\<open>true\<close> as soon as it is subscribed, not the race
  against the \<^verbatim>\<open>waitFor\<close> timer, and the state is unchanged: no request is pushed.
\<close>

theorem applyUpdate_S_unknown_key:
  "streams s k = None \<Longrightarrow> applyUpdate_S k payload c waitFor now s = (Of_bool True, s)"
  by (simp add: applyUpdate_S_def)

theorem applyUpdate_S_unknown_key_witness:
  "applyUpdate_S ''other'' 5 Returns 3000 0 feed_live = (Of_bool True, feed_live)"
  using applyUpdate_S_unknown_key[of feed_live "''other''" 5 Returns 3000 0]
  by (simp add: feed_live_def feed_registered_def registerStream_S_def subscribe_stream_def
        new_StreamService_def)

text \<open>
  C10 (requests before the first subscription). \<^verbatim>\<open>applyUpdate\<close> for a stream whose
  pipeline nobody has subscribed to yet leaves the state exactly as it was. So after
  \<^verbatim>\<open>registerStream$\<close>, any list of requests invokes no query and leaves the registry in
  the state the registration produced; the first subscriber then receives no replayed
  value; and only a request made after that subscription invokes \<^verbatim>\<open>queryOnce\<close>.
\<close>

theorem updates_before_first_subscription:
  "(streams s k = Some r \<and> pipelines s r = Some p \<and> \<not> connected p \<longrightarrow>
      applyUpdate k payload c now s = s) \<and>
   (streams s k = None \<longrightarrow>
      fst (registerStream_S k q t s) = Inr (next_pipeline s) \<and>
      applyUpdates k ups (snd (registerStream_S k q t s)) = snd (registerStream_S k q t s) \<and>
      queried (applyUpdates k ups (snd (registerStream_S k q t s))) = queried s \<and>
      notified (subscribe_stream (next_pipeline s) ob (applyUpdates k ups (snd (registerStream_S k q t s))))
        = notified s \<and>
      queried (applyUpdate k payload c now
                 (subscribe_stream (next_pipeline s) ob (applyUpdates k ups (snd (registerStream_S k q t s)))))
        = queried s @ [(q, payload)])"
proof -
  have a: "streams s k = Some r \<and> pipelines s r = Some p \<and> \<not> connected p \<longrightarrow>
      applyUpdate k payload c now s = s"
    by (simp add: applyUpdate_def update_unconnected)
  have b: "applyUpdates k ups (snd (registerStream_S k q t s)) = snd (registerStream_S k q t s)"
    if "streams s k = None"
    using that
    by (intro applyUpdates_unconnected[where r = "next_pipeline s" and
          p = "\<lparr>queryOnce = q, updateThrottleTime = throttleWindow t, connected = False,
                throttled = None, inner = [], finished = False, replay = None, listeners = []\<rparr>"])
       (simp_all add: registerStream_S_def)
  show ?thesis
    using a b
    by (cases c)
       (auto simp: registerStream_S_def subscribe_stream_def replayed_def applyUpdate_def update_def)
qed

text \<open>
  Two requests (payloads 1 and 2) right after \<^verbatim>\<open>registerStream$('feed', f)\<close> on a new
  registry change nothing; observer 1 then subscribes and is handed nothing; the
  request with payload 3 is the first to invoke the query.
\<close>

theorem updates_before_first_subscription_witness:
  "applyUpdates ''feed'' [(1, Returns, 0), (2, Returns, 5)]
      (snd (registerStream_S ''feed'' 0 None (new_StreamService :: (nat, nat, unit) StreamService)))
     = snd (registerStream_S ''feed'' 0 None (new_StreamService :: (nat, nat, unit) StreamService))
   \<and> notified (subscribe_stream 0 1 (applyUpdates ''feed'' [(1, Returns, 0), (2, Returns, 5)]
        (snd (registerStream_S ''feed'' 0 None (new_StreamService :: (nat, nat, unit) StreamService))))) = []
   \<and> queried (applyUpdate ''feed'' 3 Returns 10 (subscribe_stream 0 1
        (applyUpdates ''feed'' [(1, Returns, 0), (2, Returns, 5)]
        (snd (registerStream_S ''feed'' 0 None (new_StreamService :: (nat, nat, unit) StreamService))))))
     = [(0, 3)]"
proof -
  let ?new = "new_StreamService :: (nat, nat, unit) StreamService"
  let ?ups = "[(1, Returns, 0), (2, Returns, 5)] :: (nat \<times> unit call \<times> int) list"
  have new: "streams ?new ''feed'' = None" "next_pipeline ?new = 0" "notified ?new = []"
      "queried ?new = []"
    by (simp_all add: new_StreamService_def)
  have "applyUpdates ''feed'' ?ups (snd (registerStream_S ''feed'' 0 None ?new))
          = snd (registerStream_S ''feed'' 0 None ?new)
      \<and> notified (subscribe_stream (next_pipeline ?new) 1 (applyUpdates ''feed'' ?ups
          (snd (registerStream_S ''feed'' 0 None ?new)))) = notified ?new
      \<and> queried (applyUpdate ''feed'' 3 Returns 10 (subscribe_stream (next_pipeline ?new) 1
          (applyUpdates ''feed'' ?ups (snd (registerStream_S ''feed'' 0 None ?new)))))
          = queried ?new @ [(0, 3)]"
    using updates_before_first_subscription
      [of ?new "''feed''" 0 _ 3 Returns 10 0 None ?ups 1] new(1)
    by blast
  from this[unfolded new(2,3,4) append_Nil] show ?thesis .
qed

end
